theory Spec2Isabelle
  imports
    Complex_Main
    "HOL-Library.Char_ord"
    "HOL-Library.List_Lexorder"
    "HOL-Library.Log_Nat"
    "HOL-Library.Product_Lexorder"
    "HOL-Library.Sublist"
begin

section \<open>Python values used by the matcher\<close>

text \<open>
  The matching engine is the function \<open>match_instructions\<close> of \<open>app.py\<close> together with
  its helpers \<open>_seq_ratio\<close>, \<open>_snippet\<close> and \<open>_expand_variants\<close> and the constant
  \<open>FORMS\<close>. A leading underscore is not an Isabelle identifier, so the helpers are called
  \<open>seq_ratio\<close>, \<open>snippet\<close> and \<open>expand_variants\<close> here.

  Modelling conventions:
  \<^item> A Python \<open>str\<close> is a \<open>string\<close>; a \<open>char\<close> stands for the code point of the same
    number, so the model covers the texts whose code points are below 256 (ASCII and
    Latin-1). On these, \<open>str.lower\<close> works character by character and the characters
    that \<open>str.split\<close>, \<open>str.strip\<close> and the regular expression class \<open>\s\<close> treat as
    white space are the twelve listed in \<open>isspace\<close>.
  \<^item> A Python \<open>float\<close> is an IEEE 754 double, kept as the real number it denotes; the
    result of every division and multiplication of floats is rounded to the nearest
    double by \<open>dbl\<close>, as the hardware does, and a literal such as \<open>0.9\<close> is \<open>dbl 0.9\<close>.
  \<^item> An uncaught exception is a value \<open>Inl e\<close> of the result type.
  \<^item> A Python \<open>set\<close> of tokens, of which the code only uses membership, intersection,
    difference and size, is a HOL set. The set of variants, which the code iterates
    over, is a duplicate-free list in insertion order; Python does not specify the
    iteration order of a set, so \<open>match_instructions\<close> takes the enumeration used by the
    loop as its first argument.
  \<^item> The catalog returned by \<open>get_all_drugs_dict\<close> (a \<open>dict\<close>, iterated in insertion
    order) is an association list of names and instruction texts.
\<close>

datatype error = IndexError

type_synonym 'a result = "error + 'a"

subsection \<open>Characters\<close>

definition isspace :: "char \<Rightarrow> bool" where
  "isspace c = ((of_char c :: nat) \<in> {9, 10, 11, 12, 13, 28, 29, 30, 31, 32, 133, 160})"

definition lower_char :: "char \<Rightarrow> char" where
  "lower_char c =
     (let n = (of_char c :: nat)
      in if (65 \<le> n \<and> n \<le> 90) \<or> (192 \<le> n \<and> n \<le> 222 \<and> n \<noteq> 215)
         then char_of (n + 32) else c)"

text \<open>\<open>s.lower()\<close>\<close>

definition lower :: "string \<Rightarrow> string" where
  "lower s = map lower_char s"

subsection \<open>Stripping, splitting and joining\<close>

text \<open>\<open>s.strip(chars)\<close>: the characters satisfying \<open>P\<close> are removed from both ends.\<close>

definition strip_chars :: "(char \<Rightarrow> bool) \<Rightarrow> string \<Rightarrow> string" where
  "strip_chars P s = rev (dropWhile P (rev (dropWhile P s)))"

text \<open>\<open>s.strip()\<close>\<close>

definition strip :: "string \<Rightarrow> string" where
  "strip s = strip_chars isspace s"

text \<open>
  \<open>s.split()\<close>: the maximal runs of characters that are not white space; \<open>acc\<close> is
  the run being read.
\<close>

fun split_acc :: "string \<Rightarrow> string \<Rightarrow> string list" where
  "split_acc acc [] = (if acc = [] then [] else [acc])"
| "split_acc acc (c # cs) =
     (if isspace c then (if acc = [] then split_acc [] cs else acc # split_acc [] cs)
      else split_acc (acc @ [c]) cs)"

definition split :: "string \<Rightarrow> string list" where
  "split s = split_acc [] s"

text \<open>\<open>s.split(sep)\<close> for a separator of one character: empty pieces are kept.\<close>

fun split_on :: "char \<Rightarrow> string \<Rightarrow> string list" where
  "split_on sep [] = [[]]"
| "split_on sep (c # cs) =
     (if c = sep then [] # split_on sep cs
      else (case split_on sep cs of [] \<Rightarrow> [[c]] | p # ps \<Rightarrow> (c # p) # ps))"

text \<open>
  \<open>re.split(pattern, s)\<close> for a pattern \<open>[...]+\<close> that matches a non-empty run of the
  characters satisfying \<open>P\<close>: the pieces between the runs, the empty piece before a
  leading run and after a trailing run included. \<open>acc\<close> is the piece being read and
  \<open>inrun\<close> tells that the previous character belonged to a run.
\<close>

fun re_split_acc :: "(char \<Rightarrow> bool) \<Rightarrow> string \<Rightarrow> bool \<Rightarrow> string \<Rightarrow> string list" where
  "re_split_acc P acc inrun [] = [acc]"
| "re_split_acc P acc inrun (c # cs) =
     (if P c then (if inrun then re_split_acc P [] True cs else acc # re_split_acc P [] True cs)
      else re_split_acc P (acc @ [c]) False cs)"

definition re_split :: "(char \<Rightarrow> bool) \<Rightarrow> string \<Rightarrow> string list" where
  "re_split P s = re_split_acc P [] False s"

text \<open>\<open>" ".join(ws)\<close>\<close>

fun join :: "string list \<Rightarrow> string" where
  "join [] = []"
| "join [w] = w"
| "join (w # v # ws) = w @ '' '' @ join (v # ws)"

text \<open>\<open>xs[:n]\<close> for an integer \<open>n\<close>: a negative \<open>n\<close> counts from the end.\<close>

definition slice_to :: "'a list \<Rightarrow> int \<Rightarrow> 'a list" where
  "slice_to xs n = (if 0 \<le> n then take (nat n) xs else take (length xs - nat (- n)) xs)"

text \<open>\<open>xs[i:j]\<close> for indices \<open>0 \<le> i \<le> j\<close>.\<close>

definition slice :: "'a list \<Rightarrow> nat \<Rightarrow> nat \<Rightarrow> 'a list" where
  "slice xs i j = take (j - i) (drop i xs)"

subsection \<open>Floating-point numbers\<close>

text \<open>
  Rounding to the nearest integer, a tie going to the even one.
\<close>

definition round_half_even :: "real \<Rightarrow> int" where
  "round_half_even y =
     (let f = \<lfloor>y\<rfloor>; d = y - of_int f
      in if d < 1 / 2 then f
         else if 1 / 2 < d then f + 1
         else if even f then f else f + 1)"

text \<open>
  \<open>exponent x\<close> is the integer \<open>e\<close> with \<open>2^e \<le> x < 2^(e+1)\<close>, for \<open>x > 0\<close>: one less than
  the number of binary digits of the integer part of \<open>x\<close> when \<open>x \<ge> 1\<close>, and for \<open>x < 1\<close>
  the negated least \<open>n\<close> with \<open>1/x \<le> 2^n\<close>.
\<close>

definition exponent :: "real \<Rightarrow> int" where
  "exponent x =
     (if 1 \<le> x then int (floorlog 2 (nat \<lfloor>x\<rfloor>)) - 1
      else - int (floorlog 2 (nat (\<lceil>1 / x\<rceil> - 1))))"

text \<open>
  \<open>dbl x\<close> is the double nearest to the real number \<open>x\<close>: a double with the exponent \<open>e\<close>
  is a multiple of \<open>2^(e - 52)\<close> (a mantissa of 53 binary digits), and the result of an
  operation on floats is its exact result rounded to the nearest such multiple, a tie
  going to the even mantissa. The range of the exponent is not bounded in the model: it
  has no overflow to infinity, no subnormal numbers and no NaN. The floats of the
  matcher are the literals of the source and quotients and products of lengths below
  \<open>2^53\<close>, far from both ends of the range of a double. Comparisons, \<open>max\<close> and the
  negation are exact on floats.
\<close>

definition dbl :: "real \<Rightarrow> real" where
  "dbl x =
     (if x = 0 then 0
      else
        let ulp = 2 powi (exponent \<bar>x\<bar> - 52)
        in sgn x * (of_int (round_half_even (\<bar>x\<bar> / ulp)) * ulp))"

text \<open>
  \<open>round(x, 3)\<close> for a float \<open>x\<close>: the exact value of \<open>x\<close> is rounded to three decimals, a
  tie going to the even last digit, and the double nearest to that decimal is returned.
\<close>

definition round3 :: "real \<Rightarrow> real" where
  "round3 x = dbl (of_int (round_half_even (x * 1000)) / 1000)"

subsection \<open>Sets as lists\<close>

text \<open>\<open>s.add(x)\<close> on a set kept as a duplicate-free list in insertion order.\<close>

definition set_add :: "'a \<Rightarrow> 'a list \<Rightarrow> 'a list" where
  "set_add x xs = (if x \<in> set xs then xs else xs @ [x])"

section \<open>The similarity ratio of the standard library\<close>

text \<open>
  \<open>_seq_ratio(a, b)\<close> is \<open>SequenceMatcher(None, a, b).ratio()\<close> of Python's \<open>difflib\<close>.
  The matcher is created without a junk predicate and with the default
  \<open>autojunk = True\<close>: when \<open>b\<close> has at least 200 characters, a character that occurs
  more than \<open>len(b) // 100 + 1\<close> times in \<open>b\<close> is popular and is left out of the index
  \<open>b2j\<close> of the positions of each character of \<open>b\<close>.
\<close>

definition popular :: "string \<Rightarrow> char \<Rightarrow> bool" where
  "popular b elt = (200 \<le> length b \<and> length b div 100 + 1 < count_list b elt)"

definition b2j :: "string \<Rightarrow> char \<Rightarrow> nat list" where
  "b2j b elt = (if popular b elt then [] else filter (\<lambda>j. b ! j = elt) [0..<length b])"

text \<open>
  \<open>find_longest_match(alo, ahi, blo, bhi)\<close>. A match is the triple
  \<open>(besti, bestj, bestsize)\<close>. The dictionary \<open>j2len\<close> gives, for the row before \<open>i\<close>, the
  length of the longest match ending at each position of \<open>b\<close>; \<open>flm_inner\<close> is the body
  of the loop over the positions \<open>j\<close> of \<open>a[i]\<close> in \<open>b\<close> and \<open>flm_row\<close> the body of the loop
  over \<open>i\<close>. The source's \<open>i - k + 1\<close> is written \<open>i + 1 - k\<close> on natural numbers; the
  bounds proved below give \<open>k \<le> i + 1\<close>, so that nothing is cut off.
\<close>

type_synonym match = "nat \<times> nat \<times> nat"

definition flm_inner ::
  "(nat \<rightharpoonup> nat) \<Rightarrow> nat \<Rightarrow> nat \<Rightarrow> (nat \<rightharpoonup> nat) \<times> match \<Rightarrow> (nat \<rightharpoonup> nat) \<times> match" where
  "flm_inner j2len i j = (\<lambda>(newj2len, besti, bestj, bestsize).
     let k = (case (if j = 0 then None else j2len (j - 1)) of None \<Rightarrow> 0 | Some v \<Rightarrow> v) + 1
     in (newj2len(j \<mapsto> k),
         if bestsize < k then (i + 1 - k, j + 1 - k, k) else (besti, bestj, bestsize)))"

definition flm_row ::
  "string \<Rightarrow> string \<Rightarrow> nat \<Rightarrow> nat \<Rightarrow> nat \<Rightarrow> (nat \<rightharpoonup> nat) \<times> match \<Rightarrow> (nat \<rightharpoonup> nat) \<times> match" where
  "flm_row a b blo bhi i = (\<lambda>(j2len, best).
     fold (flm_inner j2len i) (filter (\<lambda>j. blo \<le> j \<and> j < bhi) (b2j b (a ! i)))
       (Map.empty, best))"

text \<open>
  The two loops that extend the match found by equal characters on each side. No
  character is junk, so the two further loops that extend it by junk never run.
\<close>

function extend_left :: "string \<Rightarrow> string \<Rightarrow> nat \<Rightarrow> nat \<Rightarrow> match \<Rightarrow> match" where
  "extend_left a b alo blo (besti, bestj, bestsize) =
     (if alo < besti \<and> blo < bestj \<and> a ! (besti - 1) = b ! (bestj - 1)
      then extend_left a b alo blo (besti - 1, bestj - 1, bestsize + 1)
      else (besti, bestj, bestsize))"
  by pat_completeness auto
termination
  by (relation "measure (\<lambda>(a, b, alo, blo, besti, bestj, bestsize). besti)") auto

declare extend_left.simps [simp del]

function extend_right :: "string \<Rightarrow> string \<Rightarrow> nat \<Rightarrow> nat \<Rightarrow> match \<Rightarrow> match" where
  "extend_right a b ahi bhi (besti, bestj, bestsize) =
     (if besti + bestsize < ahi \<and> bestj + bestsize < bhi
         \<and> a ! (besti + bestsize) = b ! (bestj + bestsize)
      then extend_right a b ahi bhi (besti, bestj, bestsize + 1)
      else (besti, bestj, bestsize))"
  by pat_completeness auto
termination
  by (relation "measure (\<lambda>(a, b, ahi, bhi, besti, bestj, bestsize). ahi - (besti + bestsize))")
    auto

declare extend_right.simps [simp del]

definition find_longest_match :: "string \<Rightarrow> string \<Rightarrow> nat \<Rightarrow> nat \<Rightarrow> nat \<Rightarrow> nat \<Rightarrow> match" where
  "find_longest_match a b alo ahi blo bhi =
     extend_right a b ahi bhi
       (extend_left a b alo blo
         (snd (fold (flm_row a b blo bhi) [alo..<ahi] (Map.empty, (alo, blo, 0)))))"

text \<open>
  Bounds on the match found, needed for the termination of the recursion over the
  matching blocks: the match starts at or after \<open>alo\<close> and, when it is not empty, ends
  at or before \<open>ahi\<close>.
\<close>

definition flm_inv :: "nat \<Rightarrow> nat \<Rightarrow> (nat \<rightharpoonup> nat) \<times> match \<Rightarrow> bool" where
  "flm_inv alo n = (\<lambda>(m, bi, bj, bs).
     (\<forall>j v. m j = Some v \<longrightarrow> v \<le> n - alo) \<and> alo \<le> bi \<and> (bs = 0 \<longrightarrow> bi = alo)
       \<and> (0 < bs \<longrightarrow> bi + bs \<le> n))"

lemma flm_inner_inv:
  assumes "\<forall>j v. j2len j = Some v \<longrightarrow> v \<le> n - alo" and "alo \<le> n"
    and "flm_inv alo (Suc n) s"
  shows "flm_inv alo (Suc n) (flm_inner j2len n j s)"
proof -
  obtain m bi bj bs where s: "s = (m, bi, bj, bs)" by (cases s) auto
  define k where "k = (case (if j = 0 then None else j2len (j - 1)) of None \<Rightarrow> 0 | Some v \<Rightarrow> v) + 1"
  have "v \<le> n - alo" if "j2len (j - 1) = Some v" for v
    using assms(1) that by blast
  then have k: "0 < k" "k \<le> Suc n - alo"
    using assms(2) by (auto simp: k_def Suc_diff_le split: option.splits)
  have old: "\<And>j' v. m j' = Some v \<Longrightarrow> v \<le> Suc n - alo"
    and best: "alo \<le> bi" "bs = 0 \<longrightarrow> bi = alo" "0 < bs \<longrightarrow> bi + bs \<le> Suc n"
    using assms(3) by (simp_all add: flm_inv_def s)
  have new: "v \<le> Suc n - alo" if "(m(j \<mapsto> k)) j' = Some v" for j' v
    using that k(2) old by (cases "j' = j") simp_all
  have step: "flm_inner j2len n j s
      = (m(j \<mapsto> k), if bs < k then (n + 1 - k, j + 1 - k, k) else (bi, bj, bs))"
    by (simp add: flm_inner_def s k_def Let_def)
  show ?thesis
  proof (cases "bs < k")
    case True
    have "alo \<le> n + 1 - k" "n + 1 - k + k \<le> Suc n"
      using k assms(2) by arith+
    then show ?thesis
      using True k(1) new by (simp add: step flm_inv_def)
  next
    case False
    then show ?thesis
      using best new by (simp add: step flm_inv_def)
  qed
qed

lemma flm_inner_fold_inv:
  assumes "\<forall>j v. j2len j = Some v \<longrightarrow> v \<le> n - alo" and "alo \<le> n"
  shows "flm_inv alo (Suc n) s \<Longrightarrow> flm_inv alo (Suc n) (fold (flm_inner j2len n) js s)"
  by (induction js arbitrary: s) (simp_all add: flm_inner_inv [OF assms])

lemma flm_row_inv:
  assumes "flm_inv alo n s" and "alo \<le> n"
  shows "flm_inv alo (Suc n) (flm_row a b blo bhi n s)"
proof -
  obtain j2len bi bj bs where s: "s = (j2len, bi, bj, bs)" by (cases s) auto
  have old: "\<forall>j v. j2len j = Some v \<longrightarrow> v \<le> n - alo"
    using assms(1) by (simp add: flm_inv_def s)
  have start: "flm_inv alo (Suc n) (Map.empty, bi, bj, bs)"
    using assms(1) by (auto simp: flm_inv_def s)
  show ?thesis
    unfolding flm_row_def s by (simp add: flm_inner_fold_inv [OF old assms(2) start])
qed

lemma flm_rows_inv:
  "alo \<le> ahi \<Longrightarrow> flm_inv alo ahi (fold (flm_row a b blo bhi) [alo..<ahi] (Map.empty, alo, blo, 0))"
proof (induction ahi)
  case 0
  then show ?case by (simp add: flm_inv_def)
next
  case (Suc n)
  show ?case
  proof (cases "alo \<le> n")
    case True
    then show ?thesis using Suc.IH by (simp add: flm_row_inv)
  next
    case False
    with Suc.prems have "alo = Suc n" by simp
    then show ?thesis by (simp add: flm_inv_def)
  qed
qed

definition match_ok :: "nat \<Rightarrow> nat \<Rightarrow> match \<Rightarrow> bool" where
  "match_ok alo ahi = (\<lambda>(bi, bj, bs). alo \<le> bi \<and> (bs = 0 \<longrightarrow> bi = alo) \<and> (0 < bs \<longrightarrow> bi + bs \<le> ahi))"

lemma extend_left_ok: "match_ok alo ahi m \<Longrightarrow> match_ok alo ahi (extend_left a b alo blo m)"
proof (induction a b alo blo m rule: extend_left.induct)
  case (1 a b alo blo besti bestj bestsize)
  show ?case
  proof (cases "alo < besti \<and> blo < bestj \<and> a ! (besti - 1) = b ! (bestj - 1)")
    case True
    have "match_ok alo ahi (besti - 1, bestj - 1, bestsize + 1)"
      using True "1.prems" by (auto simp: match_ok_def)
    then have "match_ok alo ahi (extend_left a b alo blo (besti - 1, bestj - 1, bestsize + 1))"
      using True by (rule "1.IH" [rotated])
    then show ?thesis
      apply (subst extend_left.simps)
      using True by simp
  next
    case False
    show ?thesis
      apply (subst extend_left.simps)
      using False "1.prems" by auto
  qed
qed

definition match_in :: "nat \<Rightarrow> nat \<Rightarrow> match \<Rightarrow> bool" where
  "match_in alo ahi = (\<lambda>(bi, bj, bs). alo \<le> bi \<and> (0 < bs \<longrightarrow> bi + bs \<le> ahi))"

lemma extend_right_ok: "match_in alo ahi m \<Longrightarrow> match_in alo ahi (extend_right a b ahi bhi m)"
proof (induction a b ahi bhi m rule: extend_right.induct)
  case (1 a b ahi bhi besti bestj bestsize)
  show ?case
  proof (cases "besti + bestsize < ahi \<and> bestj + bestsize < bhi
         \<and> a ! (besti + bestsize) = b ! (bestj + bestsize)")
    case True
    have "match_in alo ahi (besti, bestj, bestsize + 1)"
      using True "1.prems" by (auto simp: match_in_def)
    then have "match_in alo ahi (extend_right a b ahi bhi (besti, bestj, bestsize + 1))"
      using True by (rule "1.IH" [rotated])
    then show ?thesis
      apply (subst extend_right.simps)
      using True by simp
  next
    case False
    show ?thesis
      apply (subst extend_right.simps)
      using False "1.prems" by auto
  qed
qed

lemma find_longest_match_bounds:
  assumes "find_longest_match a b alo ahi blo bhi = (i, j, k)"
  shows "alo \<le> i \<and> (0 < k \<longrightarrow> i + k \<le> ahi)"
proof -
  let ?s = "fold (flm_row a b blo bhi) [alo..<ahi] (Map.empty, alo, blo, 0)"
  have "match_ok alo ahi (snd ?s)"
  proof (cases "alo \<le> ahi")
    case True
    from flm_rows_inv [OF this, of a b blo bhi] show ?thesis
      by (cases ?s) (auto simp: flm_inv_def match_ok_def)
  next
    case False
    then show ?thesis by (simp add: match_ok_def)
  qed
  then have "match_ok alo ahi (extend_left a b alo blo (snd ?s))"
    by (rule extend_left_ok)
  then have "match_in alo ahi (extend_left a b alo blo (snd ?s))"
    by (auto simp: match_ok_def match_in_def)
  then have "match_in alo ahi (extend_right a b ahi bhi (extend_left a b alo blo (snd ?s)))"
    by (rule extend_right_ok)
  then show ?thesis using assms by (simp add: find_longest_match_def match_in_def)
qed

text \<open>
  \<open>get_matching_blocks()\<close>: the longest match of the whole range, then the blocks of the
  ranges to its left and to its right. The source keeps the ranges still to be searched
  in a queue; the blocks found do not depend on the order in which the ranges are
  taken. The source then sorts the blocks, merges adjacent ones and appends an empty
  block, none of which changes the sum of the sizes that \<open>ratio()\<close> uses.
\<close>

function matching_blocks :: "string \<Rightarrow> string \<Rightarrow> nat \<Rightarrow> nat \<Rightarrow> nat \<Rightarrow> nat \<Rightarrow> match list" where
  "matching_blocks a b alo ahi blo bhi =
     (case find_longest_match a b alo ahi blo bhi of (i, j, k) \<Rightarrow>
        if k = 0 then []
        else (i, j, k)
          # (if alo < i \<and> blo < j then matching_blocks a b alo i blo j else [])
          @ (if i + k < ahi \<and> j + k < bhi then matching_blocks a b (i + k) ahi (j + k) bhi else []))"
  by pat_completeness auto
termination
proof (relation "measure (\<lambda>(a, b, alo, ahi, blo, bhi). ahi - alo)", goal_cases)
  case 1
  show ?case by simp
next
  case (2 a b alo ahi blo bhi i y j k)
  from 2(1,2) have flm: "find_longest_match a b alo ahi blo bhi = (i, j, k)" by simp
  from 2(3) have k: "0 < k" by simp
  from 2(4) have i: "alo < i" by simp
  from find_longest_match_bounds [OF flm] k have "i + k \<le> ahi" by simp
  with k i have "i - alo < ahi - alo" by arith
  then show ?case by simp
next
  case (3 a b alo ahi blo bhi i y j k)
  from 3(1,2) have flm: "find_longest_match a b alo ahi blo bhi = (i, j, k)" by simp
  from 3(3) have k: "0 < k" by simp
  from 3(4) have i: "i + k < ahi" by simp
  from find_longest_match_bounds [OF flm] have "alo \<le> i" by simp
  with k i have "ahi - (i + k) < ahi - alo" by arith
  then show ?case by simp
qed

declare matching_blocks.simps [simp del]

text \<open>
  \<open>_seq_ratio(a, b)\<close>: \<open>2.0 * matches / length\<close>, and \<open>1.0\<close> for two empty strings. The
  product \<open>2.0 * matches\<close> is exact and the quotient is rounded.
\<close>

definition seq_ratio :: "string \<Rightarrow> string \<Rightarrow> real" where
  "seq_ratio a b =
     (let matches = sum_list (map (\<lambda>(i, j, k). k) (matching_blocks a b 0 (length a) 0 (length b)));
          total = length a + length b
      in if total \<noteq> 0 then dbl (2 * real matches / real total) else 1)"

section \<open>The matcher of \<open>app.py\<close>\<close>

subsection \<open>\<open>_snippet\<close>, \<open>_expand_variants\<close> and \<open>FORMS\<close>\<close>

text \<open>\<open>_snippet(text)\<close>; its two further parameters are not used.\<close>

definition snippet :: "string \<Rightarrow> string" where
  "snippet text = (if text = [] then [] else strip text)"

text \<open>
  \<open>core = " ".join(fw[:-1]) if len(fw) > 1 else fw[0]\<close>, where \<open>fw[0]\<close> raises
  \<open>IndexError\<close> on the empty list.
\<close>

definition core_of :: "string list \<Rightarrow> string result" where
  "core_of fw =
     (if 1 < length fw then Inr (join (butlast fw))
      else (case fw of [] \<Rightarrow> Inl IndexError | w # _ \<Rightarrow> Inr w))"

text \<open>\<open>last = p.split()[-1] if p.split() else p\<close>\<close>

definition last_word :: "string \<Rightarrow> string" where
  "last_word p = (if split p \<noteq> [] then last (split p) else p)"

definition expand_variants :: "string \<Rightarrow> string list result" where
  "expand_variants name0 =
     (let name = strip name0
      in if name = [] then Inr []
         else
           let variants = [lower name]
           in if CHR ''/'' \<in> set name then
                let parts = map strip (split_on CHR ''/'' name);
                    variants = fold (\<lambda>p vs. if p \<noteq> [] then set_add (lower p) vs else vs)
                                 parts variants
                in (case parts of
                      [] \<Rightarrow> Inl IndexError
                    | first # _ \<Rightarrow>
                        (case core_of (split first) of
                           Inl e \<Rightarrow> Inl e
                         | Inr core \<Rightarrow>
                             Inr (fold (\<lambda>p vs. set_add (lower (strip (core @ '' '' @ last_word p))) vs)
                                    parts variants)))
              else Inr variants)"

definition FORMS :: "string set" where
  "FORMS = {''cream'', ''gel'', ''ointment'', ''shampoo'', ''syrup'', ''tablet'', ''capsule'',
            ''solution'', ''ointment/cream'', ''ointment/gel''}"

subsection \<open>The normalised text\<close>

text \<open>The characters of \<open>".,;:()[]/%\"'"\<close>; the last two are the two quotation marks.\<close>

definition punctuation :: "char set" where
  "punctuation = set (''.,;:()[]/%'' @ [CHR 0x22, CHR 0x27])"

text \<open>
  \<open>text_words = [w.strip(".,;:()[]/%\"'") for w in text.split() if w.strip()]\<close> for
  \<open>text = extracted_text.lower()\<close>, and \<open>text_join = " ".join(text_words)\<close>.
\<close>

definition text_words :: "string \<Rightarrow> string list" where
  "text_words extracted_text =
     map (strip_chars (\<lambda>c. c \<in> punctuation))
       (filter (\<lambda>w. strip w \<noteq> []) (split (lower extracted_text)))"

definition text_join :: "string list \<Rightarrow> string" where
  "text_join tw = join tw"

subsection \<open>The tokens of a catalog name\<close>

text \<open>
  \<open>drug_tokens = set([t.strip() for t in re.split(r"[\s/,]+", drug_lower) if t.strip()])\<close>
\<close>

definition drug_tokens :: "string \<Rightarrow> string set" where
  "drug_tokens drug =
     set (map strip
       (filter (\<lambda>t. strip t \<noteq> [])
         (re_split (\<lambda>c. isspace c \<or> c = CHR ''/'' \<or> c = CHR '','') (lower drug))))"

definition drug_core_tokens :: "string \<Rightarrow> string set" where
  "drug_core_tokens drug =
     (let core = drug_tokens drug - FORMS
      in if core = {} then drug_tokens drug else core)"

definition matched_tokens :: "string \<Rightarrow> string list \<Rightarrow> string set" where
  "matched_tokens drug tw = drug_core_tokens drug \<inter> set tw"

definition keyword_match_ratio :: "string \<Rightarrow> string list \<Rightarrow> real" where
  "keyword_match_ratio drug tw =
     (if drug_core_tokens drug \<noteq> {}
      then dbl (real (card (matched_tokens drug tw)) / real (card (drug_core_tokens drug)))
      else 0)"

subsection \<open>The score of one variant\<close>

text \<open>
  \<open>cand_tokens = set([t for t in re.split(r"\s+", cand) if t])\<close>, kept as a list without
  duplicates: the code takes its length, its only element when it has one, and its
  intersection with the words of the text.
\<close>

definition cand_tokens :: "string \<Rightarrow> string list" where
  "cand_tokens cand = remdups (filter (\<lambda>t. t \<noteq> []) (re_split isspace cand))"

text \<open>\<open>len(cand_tokens) == 1 and list(cand_tokens)[0] in FORMS\<close>\<close>

definition bare_form :: "string \<Rightarrow> bool" where
  "bare_form cand = (length (cand_tokens cand) = 1 \<and> cand_tokens cand ! 0 \<in> FORMS)"

text \<open>
  The loop over the windows of \<open>window_size\<close> words, followed by the comparison with the
  whole text.
\<close>

definition max_ngram_ratio :: "string list \<Rightarrow> string \<Rightarrow> real" where
  "max_ngram_ratio tw cand =
     (let window_size = max 1 (length (cand_tokens cand));
          n = nat (max 1 (int (length tw) - int window_size + 1));
          m = fold (\<lambda>i m. let r = seq_ratio cand (join (slice tw i (i + window_size)))
                            in if m < r then r else m) [0..<n] 0;
          whole_ratio = seq_ratio cand (text_join tw)
      in max m whole_ratio)"

definition cand_score :: "string list \<Rightarrow> real \<Rightarrow> string \<Rightarrow> real" where
  "cand_score tw keyword_ratio cand =
     (if sublist cand (text_join tw) then 1
      else
        let overlap =
              (if cand_tokens cand \<noteq> []
               then dbl (real (card (set (cand_tokens cand) \<inter> set tw))
                           / real (length (cand_tokens cand)))
               else 0)
        in max (max_ngram_ratio tw cand)
             (max (dbl (overlap * dbl 0.9)) (dbl (keyword_ratio * dbl 0.85))))"

text \<open>
  The loop \<open>for cand in variants\<close> on the state
  \<open>(best_score, best_variant, any_candidate)\<close>; \<open>continue\<close> goes on with the rest of the
  list and \<open>break\<close> returns the state.
\<close>

type_synonym scan_state = "real \<times> string option \<times> bool"

fun scan_variants :: "string list \<Rightarrow> real \<Rightarrow> string list \<Rightarrow> scan_state \<Rightarrow> scan_state" where
  "scan_variants tw keyword_ratio [] st = st"
| "scan_variants tw keyword_ratio (v # vs) (best_score, best_variant, any_candidate) =
     (let cand = lower (strip v)
      in if cand = [] then scan_variants tw keyword_ratio vs (best_score, best_variant, any_candidate)
         else if bare_form cand
         then scan_variants tw keyword_ratio vs (best_score, best_variant, any_candidate)
         else
           let score = cand_score tw keyword_ratio cand;
               st = (if best_score < score then (score, Some cand, True)
                     else (best_score, best_variant, True))
           in if dbl 0.999 \<le> fst st then st else scan_variants tw keyword_ratio vs st)"

subsection \<open>The final score and the result list\<close>

definition final_score :: "real \<Rightarrow> real \<Rightarrow> real" where
  "final_score keyword_ratio best_score =
     (if 1 \<le> keyword_ratio then max best_score (dbl 0.95)
      else if dbl 0.8 \<le> keyword_ratio then max best_score (dbl 0.85)
      else best_score)"

text \<open>A result is the tuple \<open>(drug, best_variant or drug, snippet, round(final_score, 3))\<close>.\<close>

type_synonym match_result = "string \<times> string \<times> string \<times> real"

text \<open>
  The body of the loop over the catalog for one entry: \<open>None\<close> when the entry adds no
  result, \<open>Some r\<close> when \<open>r\<close> is appended to \<open>results\<close>. \<open>order\<close> is the order in which
  the set of variants is iterated.
\<close>

definition match_entry ::
  "(string list \<Rightarrow> string list) \<Rightarrow> string list \<Rightarrow> real \<Rightarrow> string \<Rightarrow> string
     \<Rightarrow> match_result option result" where
  "match_entry order tw cutoff drug instr =
     (if drug = [] \<or> strip drug = [] then Inr None
      else if matched_tokens drug tw = {} then Inr None
      else
        (case expand_variants drug of
           Inl e \<Rightarrow> Inl e
         | Inr variants \<Rightarrow>
             (case scan_variants tw (keyword_match_ratio drug tw) (order variants) (0, None, False) of
                (best_score, best_variant, any_candidate) \<Rightarrow>
                  if \<not> any_candidate then Inr None
                  else
                    let final = final_score (keyword_match_ratio drug tw) best_score
                    in if cutoff \<le> final \<and> matched_tokens drug tw \<noteq> {}
                       then Inr (Some (drug,
                                       (case best_variant of None \<Rightarrow> drug
                                        | Some v \<Rightarrow> if v = [] then drug else v),
                                       snippet instr, round3 final))
                       else Inr None)))"

fun match_loop ::
  "(string list \<Rightarrow> string list) \<Rightarrow> string list \<Rightarrow> real \<Rightarrow> (string \<times> string) list
     \<Rightarrow> match_result list result" where
  "match_loop order tw cutoff [] = Inr []"
| "match_loop order tw cutoff ((drug, instr) # rest) =
     (case match_entry order tw cutoff drug instr of
        Inl e \<Rightarrow> Inl e
      | Inr r \<Rightarrow>
          (case match_loop order tw cutoff rest of
             Inl e \<Rightarrow> Inl e
           | Inr results \<Rightarrow> Inr (case r of None \<Rightarrow> results | Some x \<Rightarrow> x # results)))"

text \<open>\<open>results.sort(key=lambda x: (-x[3], x[0]))\<close>: a stable sort on the key.\<close>

definition sort_key_of :: "match_result \<Rightarrow> real \<times> string" where
  "sort_key_of = (\<lambda>(drug, variant, snip, score). (- score, drug))"

text \<open>
  \<open>match_instructions(extracted_text, cutoff, max_results)\<close>. The catalog read by
  \<open>get_all_drugs_dict()\<close> is the argument \<open>instructions_db\<close>; \<open>extracted_text\<close> is
  \<open>None\<close> for Python's \<open>None\<close>.
\<close>

definition match_instructions ::
  "(string list \<Rightarrow> string list) \<Rightarrow> (string \<times> string) list \<Rightarrow> string option \<Rightarrow> real \<Rightarrow> int
     \<Rightarrow> match_result list result" where
  "match_instructions order instructions_db extracted_text cutoff max_results =
     (case extracted_text of
        None \<Rightarrow> Inr []
      | Some t \<Rightarrow>
          if t = [] then Inr []
          else
            (case match_loop order (text_words t) cutoff instructions_db of
               Inl e \<Rightarrow> Inl e
             | Inr results \<Rightarrow> Inr (slice_to (sort_key sort_key_of results) max_results)))"


text \<open>
  The value of \<open>final_score\<close> that the body of the loop computes for the name \<open>drug\<close>,
  just before it is compared with the cutoff: the final score of the best score left by
  the loop over the variants.
\<close>

definition entry_final_score ::
  "(string list \<Rightarrow> string list) \<Rightarrow> string list \<Rightarrow> string \<Rightarrow> real result" where
  "entry_final_score order tw drug =
     (case expand_variants drug of
        Inl e \<Rightarrow> Inl e
      | Inr variants \<Rightarrow>
          Inr (final_score (keyword_match_ratio drug tw)
                 (fst (scan_variants tw (keyword_match_ratio drug tw) (order variants)
                         (0, None, False)))))"

section \<open>Properties of the matcher\<close>

subsection \<open>Rounding to a double\<close>

lemma round_half_even_bounds: "\<lfloor>y\<rfloor> \<le> round_half_even y \<and> round_half_even y \<le> \<lfloor>y\<rfloor> + 1"
  by (simp add: round_half_even_def Let_def)

lemma round_half_even_mono:
  assumes "y \<le> z"
  shows "round_half_even y \<le> round_half_even z"
proof (cases "\<lfloor>y\<rfloor> = \<lfloor>z\<rfloor>")
  case True
  with assms have "y - of_int \<lfloor>z\<rfloor> \<le> z - of_int \<lfloor>z\<rfloor>" by simp
  with True show ?thesis
    by (simp add: round_half_even_def Let_def)
next
  case False
  with assms have "\<lfloor>y\<rfloor> + 1 \<le> \<lfloor>z\<rfloor>"
    using floor_mono [of y z] by linarith
  with round_half_even_bounds [of y] round_half_even_bounds [of z] show ?thesis
    by linarith
qed

lemma round_half_even_of_int: "round_half_even (of_int k) = k"
  by (simp add: round_half_even_def)

lemma exponent_bounds:
  assumes "0 < x"
  shows "2 powi exponent x \<le> x \<and> x < 2 powi (exponent x + 1)"
proof (cases "1 \<le> x")
  case True
  define m where "m = nat \<lfloor>x\<rfloor>"
  define n where "n = floorlog 2 m"
  from True have m: "0 < m" "real m \<le> x" "x < real m + 1"
    by (simp_all add: m_def) (linarith+)?
  from floorlog_bounds [of m 2] m(1) have b: "2 ^ (n - 1) \<le> m" "m < 2 ^ n"
    by (simp_all add: n_def)
  have "floorlog 2 m \<noteq> 0" using m(1) by (simp add: floorlog_eq_zero_iff)
  then have n: "0 < n" by (simp add: n_def)
  have e: "exponent x = int n - 1"
    using True by (simp add: exponent_def n_def m_def)
  have p1: "(2::real) powi (int n - 1) = 2 ^ (n - 1)"
    using n by (simp add: power_int_def nat_diff_distrib')
  have p2: "(2::real) powi (int n - 1 + 1) = 2 ^ n"
    by simp
  have "(2::real) ^ (n - 1) \<le> real m"
    using b(1) by (metis of_nat_le_iff of_nat_numeral of_nat_power)
  with m(2) have lo: "(2::real) ^ (n - 1) \<le> x" by linarith
  have "real m + 1 \<le> 2 ^ n"
  proof -
    from b(2) have "m + 1 \<le> 2 ^ n" by simp
    then have "real (m + 1) \<le> real (2 ^ n)" by (rule of_nat_mono)
    then show ?thesis by simp
  qed
  with m(3) have hi: "x < 2 ^ n" by linarith
  from lo hi show ?thesis
    by (simp only: e p1 p2)
next
  case False
  define y where "y = 1 / x"
  define m where "m = nat (\<lceil>y\<rceil> - 1)"
  define n where "n = floorlog 2 m"
  from False assms have y: "1 < y" by (simp add: y_def)
  then have "2 \<le> \<lceil>y\<rceil>" by linarith
  then have m: "0 < m" "real m < y" "y \<le> real m + 1"
    by (simp_all add: m_def) (linarith+)?
  from floorlog_bounds [of m 2] m(1) have fb: "2 ^ (n - 1) \<le> m" "m < 2 ^ n"
    by (simp_all add: n_def)
  have "floorlog 2 m \<noteq> 0" using m(1) by (simp add: floorlog_eq_zero_iff)
  then have n: "0 < n" by (simp add: n_def)
  have e: "exponent x = - int n"
    using False by (simp add: exponent_def n_def m_def y_def)
  have p1: "(2::real) powi (- int n) = 1 / 2 ^ n"
    by (simp add: power_int_minus_divide)
  have p2: "(2::real) powi (- int n + 1) = 1 / 2 ^ (n - 1)"
  proof -
    have "- int n + 1 = - int (n - 1)" using n by simp
    then show ?thesis by (simp only: power_int_minus_divide power_int_of_nat)
  qed
  have "(2::real) ^ (n - 1) \<le> real m"
    using fb(1) by (metis of_nat_le_iff of_nat_numeral of_nat_power)
  with m(2) have lo: "(2::real) ^ (n - 1) < y" by linarith
  have "real m + 1 \<le> 2 ^ n"
  proof -
    from fb(2) have "m + 1 \<le> 2 ^ n" by simp
    then have "real (m + 1) \<le> real (2 ^ n)" by (rule of_nat_mono)
    then show ?thesis by simp
  qed
  with m(3) have hi: "y \<le> 2 ^ n" by linarith
  have x: "x = 1 / y" using assms by (simp add: y_def)
  have "1 / 2 ^ n \<le> 1 / y"
    using hi y by (intro divide_left_mono) simp_all
  then have a: "1 / 2 ^ n \<le> x" by (simp only: x)
  have "1 / y < 1 / 2 ^ (n - 1)"
    using lo y by (intro divide_strict_left_mono) simp_all
  then have b: "x < 1 / 2 ^ (n - 1)" by (simp only: x)
  from a b show ?thesis
    by (simp only: e p1 p2)
qed

lemma exponent_mono:
  assumes "0 < x" and "x \<le> y"
  shows "exponent x \<le> exponent y"
proof -
  from assms have "0 < y" by simp
  from exponent_bounds [OF assms(1)] exponent_bounds [OF this] assms(2)
  have less: "(2::real) powi exponent x < 2 powi (exponent y + 1)" by linarith
  show ?thesis
  proof (rule ccontr)
    assume "\<not> exponent x \<le> exponent y"
    then have "exponent y + 1 \<le> exponent x" by simp
    then have "(2::real) powi (exponent y + 1) \<le> 2 powi exponent x"
      by (rule power_int_increasing) simp
    with less show False by simp
  qed
qed


lemma dbl_pos_eq:
  "0 < x \<Longrightarrow>
   dbl x = of_int (round_half_even (x / 2 powi (exponent x - 52))) * 2 powi (exponent x - 52)"
  by (simp add: dbl_def Let_def)

lemma dbl_range:
  assumes "0 < x"
  shows "2 powi exponent x \<le> dbl x \<and> dbl x \<le> 2 powi (exponent x + 1)"
proof -
  define e where "e = exponent x"
  define u :: real where "u = 2 powi (e - 52)"
  have u: "0 < u" by (simp add: u_def)
  have lo_u: "2 powi e = 2 ^ 52 * u"
    by (simp add: u_def power_int_diff)
  have hi_u: "2 powi (e + 1) = 2 ^ 53 * u"
    by (simp add: u_def power_int_diff power_int_add)
  from exponent_bounds [OF assms] have "2 ^ 52 * u \<le> x" "x \<le> 2 ^ 53 * u"
    by (simp_all add: e_def [symmetric] lo_u hi_u)
  with u have "2 ^ 52 \<le> x / u" "x / u \<le> 2 ^ 53"
    by (simp_all add: pos_le_divide_eq pos_divide_le_eq)
  then have "round_half_even (of_int (2 ^ 52)) \<le> round_half_even (x / u)"
    and "round_half_even (x / u) \<le> round_half_even (of_int (2 ^ 53))"
    by (simp_all add: round_half_even_mono)
  then have m: "(2::int) ^ 52 \<le> round_half_even (x / u)" "round_half_even (x / u) \<le> 2 ^ 53"
    by (simp_all only: round_half_even_of_int)
  then have "(2::real) ^ 52 \<le> of_int (round_half_even (x / u))"
    and "of_int (round_half_even (x / u)) \<le> (2::real) ^ 53"
    by (metis of_int_le_iff of_int_numeral of_int_power)+
  with u have "2 ^ 52 * u \<le> of_int (round_half_even (x / u)) * u"
    and "of_int (round_half_even (x / u)) * u \<le> 2 ^ 53 * u"
    by (simp_all add: mult_right_mono)
  then show ?thesis
    by (simp add: dbl_pos_eq [OF assms] e_def [symmetric] u_def [symmetric] lo_u hi_u)
qed

lemma dbl_pos: "0 < x \<Longrightarrow> 0 < dbl x"
  using dbl_range [of x] zero_less_power_int [of "2::real" "exponent x"] by linarith

lemma dbl_mono_pos:
  assumes "0 < x" and "x \<le> y"
  shows "dbl x \<le> dbl y"
proof (cases "exponent x = exponent y")
  case True
  from assms have y: "0 < y" by simp
  define u :: real where "u = 2 powi (exponent y - 52)"
  have u: "0 < u" by (simp add: u_def)
  with assms(2) have "x / u \<le> y / u" by (simp add: divide_right_mono)
  then have "round_half_even (x / u) \<le> round_half_even (y / u)"
    by (rule round_half_even_mono)
  then have "real_of_int (round_half_even (x / u)) * u \<le> of_int (round_half_even (y / u)) * u"
    using u by (simp add: mult_right_mono)
  then show ?thesis
    by (simp add: dbl_pos_eq [OF assms(1)] dbl_pos_eq [OF y] True u_def [symmetric])
next
  case False
  from assms have y: "0 < y" by simp
  from False exponent_mono [OF assms] have "exponent x + 1 \<le> exponent y" by simp
  then have "(2::real) powi (exponent x + 1) \<le> 2 powi exponent y"
    by (simp add: power_int_increasing)
  with dbl_range [OF assms(1)] dbl_range [OF y] show ?thesis by linarith
qed

lemma dbl_zero: "dbl 0 = 0"
  by (simp add: dbl_def)

lemma dbl_minus: "dbl (- x) = - dbl x"
  by (simp add: dbl_def Let_def)

lemma dbl_mono:
  assumes "x \<le> y"
  shows "dbl x \<le> dbl y"
proof -
  consider "0 < x" | "x \<le> 0" "0 \<le> y" | "y < 0" by linarith
  then show ?thesis
  proof cases
    case 1
    then show ?thesis using assms by (rule dbl_mono_pos)
  next
    case 2
    have "dbl x \<le> 0"
    proof (cases "x = 0")
      case True
      then show ?thesis by (simp add: dbl_zero)
    next
      case False
      with 2 have "0 < - x" by simp
      from dbl_pos [OF this] show ?thesis by (simp add: dbl_minus)
    qed
    moreover have "0 \<le> dbl y"
    proof (cases "y = 0")
      case True
      then show ?thesis by (simp add: dbl_zero)
    next
      case False
      with 2 have "0 < y" by simp
      from dbl_pos [OF this] show ?thesis by simp
    qed
    ultimately show ?thesis by simp
  next
    case 3
    with assms have "0 < - y" "- y \<le> - x" by simp_all
    then have "dbl (- y) \<le> dbl (- x)" by (rule dbl_mono_pos)
    then show ?thesis by (simp add: dbl_minus)
  qed
qed

lemma round3_mono: "x \<le> y \<Longrightarrow> round3 x \<le> round3 y"
  by (simp add: round3_def round_half_even_mono dbl_mono divide_right_mono)


text \<open>
  Three products of the source on which the double differs from the exact product in a
  way that shows: it falls below the tie \<open>0.6375\<close> and above the tie \<open>0.1125\<close>, and
  \<open>(1/9) * 0.9\<close> is below \<open>0.1\<close>.
\<close>

lemma float_products:
  "round3 (dbl (3/4 * dbl 0.85)) = dbl 0.637
   \<and> round3 (dbl (1/8 * dbl 0.9)) = dbl 0.113
   \<and> dbl (dbl (1/9) * dbl 0.9) < dbl 0.1"
  by code_simp



subsection \<open>The results come from the entries of the catalog\<close>

lemma set_slice_to: "set (slice_to xs n) \<subseteq> set xs"
  by (auto simp: slice_to_def dest: in_set_takeD)

lemma sorted_slice_to: "sorted (map f xs) \<Longrightarrow> sorted (map f (slice_to xs n))"
  by (simp add: slice_to_def take_map [symmetric] del: take_map)


lemma match_entry_SomeD:
  assumes "match_entry order tw cutoff drug instr = Inr (Some r)"
  obtains variants best_score best_variant where
    "strip drug \<noteq> []" "matched_tokens drug tw \<noteq> {}"
    "expand_variants drug = Inr variants"
    "scan_variants tw (keyword_match_ratio drug tw) (order variants) (0, None, False)
       = (best_score, best_variant, True)"
    "cutoff \<le> final_score (keyword_match_ratio drug tw) best_score"
    "r = (drug, (case best_variant of None \<Rightarrow> drug | Some v \<Rightarrow> if v = [] then drug else v),
          snippet instr, round3 (final_score (keyword_match_ratio drug tw) best_score))"
  using assms
  by (auto simp: match_entry_def Let_def split: if_splits sum.splits prod.splits)

lemma match_loop_memD:
  "match_loop order tw cutoff db = Inr res \<Longrightarrow> r \<in> set res \<Longrightarrow>
   \<exists>drug instr. (drug, instr) \<in> set db \<and> match_entry order tw cutoff drug instr = Inr (Some r)"
proof (induction db arbitrary: res)
  case Nil
  then show ?case by simp
next
  case (Cons e db)
  obtain drug instr where e: "e = (drug, instr)" by (cases e)
  from Cons.prems(1) obtain r0 rest where
    r0: "match_entry order tw cutoff drug instr = Inr r0"
    and rest: "match_loop order tw cutoff db = Inr rest"
    and res: "res = (case r0 of None \<Rightarrow> rest | Some x \<Rightarrow> x # rest)"
    by (auto simp: e split: sum.splits)
  show ?case
  proof (cases "r \<in> set rest")
    case True
    from Cons.IH [OF rest True] show ?thesis by auto
  next
    case False
    with Cons.prems(2) res have "r0 = Some r" by (cases r0) auto
    with r0 show ?thesis by (auto simp: e)
  qed
qed



lemma match_instructions_InrD:
  assumes "match_instructions order db text cutoff max_results = Inr res"
    and "r \<in> set res"
  obtains t results where "text = Some t" "t \<noteq> []"
    "match_loop order (text_words t) cutoff db = Inr results"
    "res = slice_to (sort_key sort_key_of results) max_results"
  using assms
  by (auto simp: match_instructions_def split: option.splits if_splits sum.splits)

lemma match_instructions_memD:
  assumes "match_instructions order db text cutoff max_results = Inr res"
    and "r \<in> set res"
  obtains t drug instr where "text = Some t" "(drug, instr) \<in> set db"
    "match_entry order (text_words t) cutoff drug instr = Inr (Some r)"
proof -
  from assms obtain t results where t: "text = Some t"
    and loop: "match_loop order (text_words t) cutoff db = Inr results"
    and res: "res = slice_to (sort_key sort_key_of results) max_results"
    by (rule match_instructions_InrD)
  from assms(2) res set_slice_to have "r \<in> set results" by fastforce
  from match_loop_memD [OF loop this] t that show ?thesis by blast
qed




lemma match_entry_final_score:
  assumes "match_entry order tw cutoff drug instr = Inr (Some (name, variant, snip, score))"
  shows "name = drug \<and> snip = snippet instr
         \<and> (\<exists>final. entry_final_score order tw drug = Inr final \<and> cutoff \<le> final
               \<and> score = round3 final)"
  using assms by (rule match_entry_SomeD) (simp add: entry_final_score_def)

subsection \<open>Lower case and stripping\<close>










subsection \<open>The variants of a name\<close>








subsection \<open>The loop over the variants\<close>


lemma scan_variants_skip:
  "lower (strip v) = [] \<or> bare_form (lower (strip v)) \<Longrightarrow>
   scan_variants tw k (v # vs) st = scan_variants tw k vs st"
  by (cases st) (auto simp: Let_def)







lemma scan_variants_all_skipped:
  "\<forall>v\<in>set vs. lower (strip v) = [] \<or> bare_form (lower (strip v)) \<Longrightarrow>
   scan_variants tw k vs st = st"
proof (induction vs)
  case Nil
  show ?case by simp
next
  case (Cons v vs)
  then show ?case by (simp add: scan_variants_skip del: scan_variants.simps)
qed

subsection \<open>Names without tokens\<close>





subsection \<open>Empty input\<close>

text \<open>
  Claim C8. For every catalog, cutoff and \<open>max_results\<close>, and every enumeration order of
  the variants, the matcher returns the empty list, and raises nothing, when the input
  text is \<open>None\<close> and when it is the empty string.
\<close>

theorem match_instructions_empty_text:
  "match_instructions order db None cutoff max_results = Inr []
   \<and> match_instructions order db (Some []) cutoff max_results = Inr []"
  by (simp add: match_instructions_def)

subsection \<open>A name whose first segment is empty\<close>

lemma text_words_cream: "text_words ''cream'' = [''cream'']"
  by code_simp

lemma strip_slash_cream: "strip ''/Cream'' = ''/Cream''"
  by code_simp

lemma drug_core_tokens_slash_cream: "drug_core_tokens ''/Cream'' = {''cream''}"
  by code_simp

lemma expand_variants_slash_cream: "expand_variants ''/Cream'' = Inl IndexError"
  by code_simp

text \<open>
  Claim C2 says that the matcher returns a list, without raising, for every text and
  every catalog, a name such as \<open>/Cream\<close> included. The code does not: for the text
  \<open>cream\<close> and a catalog whose only name is \<open>/Cream\<close> the entry passes the gate (its only
  token is \<open>cream\<close>), \<open>_expand_variants\<close> splits the empty first segment into no words
  and \<open>fw[0]\<close> raises \<open>IndexError\<close>, whatever the payload, the cutoff, \<open>max_results\<close> and
  the enumeration order are.
\<close>

theorem match_instructions_slash_name_raises:
  "match_instructions order [(''/Cream'', payload)] (Some ''cream'') cutoff max_results
     = Inl IndexError"
  by (simp add: match_instructions_def text_words_cream match_entry_def strip_slash_cream
      matched_tokens_def drug_core_tokens_slash_cream expand_variants_slash_cream)

subsection \<open>Pieces of punctuation\<close>

text \<open>
  Claim C9 says that the normalised token sequence has no empty token, a piece made of
  punctuation only being dropped. The code tests \<open>w.strip()\<close>, the piece with white
  space removed, not the piece with the punctuation removed: the piece \<open>...\<close> passes
  the test and becomes the empty token, and the joined text has two spaces in a row.
\<close>

theorem text_words_keeps_empty_token:
  "text_words ''take ... daily'' = [''take'', [], ''daily'']
   \<and> text_join (text_words ''take ... daily'') = ''take  daily''"
  by code_simp

subsection \<open>A catalog of two entries\<close>

text \<open>
  The matcher evaluated on a catalog of two entries and the text \<open>aspirin zinc\<close>. The
  first name occurs in the text; the second shares one of its two tokens with it and
  scores \<open>0.5 * 0.9\<close>, rounded to the float \<open>0.45\<close>. Here and in the other evaluations below every name has a single
  variant, so that the order in which the variants are enumerated plays no part; the
  identity is passed for it.
\<close>

lemma eval_two_entries:
  "match_instructions (\<lambda>vs. vs)
     [(''Aspirin'', '' Take one daily''), (''Zinc Oxide'', ''Apply'')]
     (Some ''aspirin zinc'') (1/4) 10
   = Inr [(''Aspirin'', ''aspirin'', ''Take one daily'', 1),
          (''Zinc Oxide'', ''zinc oxide'', ''Apply'', dbl 0.45)]"
  by code_simp


lemma eval_two_entries_zinc:
  "drug_core_tokens ''Zinc Oxide'' \<inter> set (text_words ''aspirin zinc'') = {''zinc''}
   \<and> drug_tokens ''Zinc Oxide'' - FORMS = {''zinc'', ''oxide''}"
  by code_simp



subsection \<open>The gate\<close>

lemma drug_core_tokens_nonform:
  "drug_tokens drug - FORMS \<noteq> {} \<Longrightarrow> drug_core_tokens drug = drug_tokens drug - FORMS"
  by (simp add: drug_core_tokens_def Let_def)

text \<open>
  Claim C1, amended. Every result returned belongs to an entry of the catalog whose
  core tokens share at least one token, by equality of strings, with the normalised
  tokens of the text; the core tokens of a name are its tokens outside \<open>FORMS\<close>, or all
  its tokens when every one of them is in \<open>FORMS\<close>. In particular a name that has a
  token outside \<open>FORMS\<close> shares such a token with the text.
\<close>

theorem results_share_core_token:
  assumes "match_instructions order db text cutoff max_results = Inr res"
    and "(drug, variant, snip, score) \<in> set res"
  shows "\<exists>t instr. text = Some t \<and> (drug, instr) \<in> set db
           \<and> drug_core_tokens drug \<inter> set (text_words t) \<noteq> {}
           \<and> (drug_tokens drug - FORMS \<noteq> {}
                \<longrightarrow> (drug_tokens drug - FORMS) \<inter> set (text_words t) \<noteq> {})"
proof -
  from assms obtain t d instr where t: "text = Some t" and mem: "(d, instr) \<in> set db"
    and entry: "match_entry order (text_words t) cutoff d instr
                  = Inr (Some (drug, variant, snip, score))"
    by (rule match_instructions_memD)
  from entry have d: "d = drug" and gate: "matched_tokens d (text_words t) \<noteq> {}"
    by (auto elim!: match_entry_SomeD)
  from gate have core: "drug_core_tokens drug \<inter> set (text_words t) \<noteq> {}"
    by (simp add: matched_tokens_def d)
  then have "(drug_tokens drug - FORMS) \<inter> set (text_words t) \<noteq> {}"
    if "drug_tokens drug - FORMS \<noteq> {}"
    using that by (simp add: drug_core_tokens_nonform)
  with core t mem d show ?thesis by blast
qed

text \<open>The theorem at the second result of the catalog of two entries.\<close>

theorem results_share_core_token_witness:
  "match_instructions (\<lambda>vs. vs)
     [(''Aspirin'', '' Take one daily''), (''Zinc Oxide'', ''Apply'')]
     (Some ''aspirin zinc'') (1/4) 10
   = Inr [(''Aspirin'', ''aspirin'', ''Take one daily'', 1),
          (''Zinc Oxide'', ''zinc oxide'', ''Apply'', dbl 0.45)]
   \<and> drug_tokens ''Zinc Oxide'' - FORMS \<noteq> {}
   \<and> drug_core_tokens ''Zinc Oxide'' \<inter> set (text_words ''aspirin zinc'') \<noteq> {}
   \<and> (drug_tokens ''Zinc Oxide'' - FORMS) \<inter> set (text_words ''aspirin zinc'') \<noteq> {}"
proof -
  have mem: "(''Zinc Oxide'', ''zinc oxide'', ''Apply'', dbl 0.45)
      \<in> set [(''Aspirin'', ''aspirin'', ''Take one daily'', 1),
              (''Zinc Oxide'', ''zinc oxide'', ''Apply'', dbl 0.45)]"
    by simp
  have nonform: "drug_tokens ''Zinc Oxide'' - FORMS \<noteq> {}"
    using eval_two_entries_zinc by simp
  from results_share_core_token [OF eval_two_entries mem] nonform
  have "drug_core_tokens ''Zinc Oxide'' \<inter> set (text_words ''aspirin zinc'') \<noteq> {}"
    and "(drug_tokens ''Zinc Oxide'' - FORMS) \<inter> set (text_words ''aspirin zinc'') \<noteq> {}"
    by blast+
  with eval_two_entries nonform show ?thesis by blast
qed

text \<open>
  Claim C1 as stated fails: the name \<open>Cream Gel\<close> has no token outside \<open>FORMS\<close>, so it
  shares no such token with the text \<open>cream\<close>, and yet it is returned.
\<close>

theorem non_form_token_counterexample:
  "match_instructions (\<lambda>vs. vs) [(''Cream Gel'', ''Apply'')] (Some ''cream'') (1/4) 10
     = Inr [(''Cream Gel'', ''cream gel'', ''Apply'', dbl 0.714)]
   \<and> (drug_tokens ''Cream Gel'' - FORMS) \<inter> set (text_words ''cream'') = {}"
  by code_simp

subsection \<open>The payload\<close>

lemma strip_chars_Nil: "strip_chars P [] = []"
  by (simp add: strip_chars_def)

lemma strip_chars_id:
  assumes "s \<noteq> []" and "\<not> P (hd s)" and "\<not> P (last s)"
  shows "strip_chars P s = s"
proof -
  from assms(1,2) have "dropWhile P s = s" by (cases s) simp_all
  moreover from assms(1,3) have "dropWhile P (rev s) = rev s"
    by (cases "rev s") (simp_all add: hd_rev [symmetric])
  ultimately show ?thesis by (simp add: strip_chars_def)
qed

lemma snippet_strip: "snippet instr = strip instr"
  by (simp add: snippet_def strip_def strip_chars_Nil)

text \<open>
  Claim C4, amended. The payload of every result is the payload of its catalog entry
  with the white space at both ends removed (\<open>_snippet\<close> returns \<open>text.strip()\<close>); it
  equals the payload of the entry character for character when that payload is empty
  or neither starts nor ends with white space.
\<close>

theorem results_payload_stripped:
  assumes "match_instructions order db text cutoff max_results = Inr res"
    and "(drug, variant, snip, score) \<in> set res"
  shows "\<exists>instr. (drug, instr) \<in> set db \<and> snip = strip instr
           \<and> (instr = [] \<or> (\<not> isspace (hd instr) \<and> \<not> isspace (last instr)) \<longrightarrow> snip = instr)"
proof -
  from assms obtain t d instr where mem: "(d, instr) \<in> set db"
    and entry: "match_entry order (text_words t) cutoff d instr
                  = Inr (Some (drug, variant, snip, score))"
    by (rule match_instructions_memD)
  from entry have d: "d = drug" and snip: "snip = snippet instr"
    by (auto elim!: match_entry_SomeD)
  have "strip instr = instr"
    if "instr = [] \<or> (\<not> isspace (hd instr) \<and> \<not> isspace (last instr))"
    using that by (cases "instr = []") (auto simp: strip_def strip_chars_Nil strip_chars_id)
  then show ?thesis
    using mem d snip by (auto simp: snippet_strip)
qed

text \<open>
  The theorem at the second result of the catalog of two entries, whose payload has no
  white space at its ends.
\<close>

theorem results_payload_stripped_witness:
  "match_instructions (\<lambda>vs. vs)
     [(''Aspirin'', '' Take one daily''), (''Zinc Oxide'', ''Apply'')]
     (Some ''aspirin zinc'') (1/4) 10
   = Inr [(''Aspirin'', ''aspirin'', ''Take one daily'', 1),
          (''Zinc Oxide'', ''zinc oxide'', ''Apply'', dbl 0.45)]
   \<and> (\<exists>instr. (''Zinc Oxide'', instr) \<in> set [(''Aspirin'', '' Take one daily''), (''Zinc Oxide'', ''Apply'')]
         \<and> ''Apply'' = strip instr
         \<and> (instr = [] \<or> (\<not> isspace (hd instr) \<and> \<not> isspace (last instr)) \<longrightarrow> ''Apply'' = instr))
   \<and> \<not> isspace (hd ''Apply'') \<and> \<not> isspace (last ''Apply'')"
proof -
  have mem: "(''Zinc Oxide'', ''zinc oxide'', ''Apply'', dbl 0.45)
      \<in> set [(''Aspirin'', ''aspirin'', ''Take one daily'', 1),
              (''Zinc Oxide'', ''zinc oxide'', ''Apply'', dbl 0.45)]"
    by simp
  note concl = results_payload_stripped [OF eval_two_entries mem]
  have "\<not> isspace (hd ''Apply'') \<and> \<not> isspace (last ''Apply'')"
    by code_simp
  with eval_two_entries concl show ?thesis by blast
qed

text \<open>
  Claim C4 as stated fails: the payload of the entry \<open>Aspirin\<close> starts with a space, and
  the payload returned does not.
\<close>

theorem results_payload_untouched_counterexample:
  "match_instructions (\<lambda>vs. vs)
     [(''Aspirin'', '' Take one daily''), (''Zinc Oxide'', ''Apply'')]
     (Some ''aspirin zinc'') (1/4) 10
   = Inr [(''Aspirin'', ''aspirin'', ''Take one daily'', 1),
          (''Zinc Oxide'', ''zinc oxide'', ''Apply'', dbl 0.45)]
   \<and> ''Take one daily'' \<noteq> '' Take one daily''"
  using eval_two_entries by simp

subsection \<open>The cutoff\<close>

text \<open>
  Claim C6, amended. For every result returned, the final score of its entry, not yet
  rounded, is at least the cutoff, and the score of the result is that final score
  rounded to three decimals: the comparison with the cutoff is made before the
  rounding, and no entry whose final score is below the cutoff appears. Hence the score
  is at least the cutoff rounded to three decimals (which is the cutoff itself for the
  cutoffs \<open>0.25\<close> and \<open>0.6\<close> of the callers).
\<close>

theorem results_score_cutoff:
  assumes "match_instructions order db text cutoff max_results = Inr res"
    and "(drug, variant, snip, score) \<in> set res"
  shows "\<exists>t final. text = Some t
           \<and> entry_final_score order (text_words t) drug = Inr final
           \<and> cutoff \<le> final \<and> score = round3 final \<and> round3 cutoff \<le> score"
proof -
  from assms obtain t d instr where t: "text = Some t"
    and entry: "match_entry order (text_words t) cutoff d instr
                  = Inr (Some (drug, variant, snip, score))"
    by (rule match_instructions_memD)
  from match_entry_final_score [OF entry] obtain final where
    d: "drug = d" and final: "entry_final_score order (text_words t) d = Inr final"
    and le: "cutoff \<le> final" and score: "score = round3 final"
    by blast
  from le have "round3 cutoff \<le> round3 final" by (rule round3_mono)
  with t d final le score show ?thesis by blast
qed

text \<open>
  The theorem at the second result of the catalog of two entries, for the cutoff
  \<open>0.25\<close>, which is its own rounding to three decimals.
\<close>

lemma eval_two_entries_final:
  "entry_final_score (\<lambda>vs. vs) (text_words ''aspirin zinc'') ''Zinc Oxide'' = Inr (dbl (1/2 * dbl 0.9))
   \<and> round3 (1/4) = 1/4 \<and> round3 (dbl 0.6) = dbl 0.6"
  by code_simp

theorem results_score_cutoff_witness:
  "match_instructions (\<lambda>vs. vs)
     [(''Aspirin'', '' Take one daily''), (''Zinc Oxide'', ''Apply'')]
     (Some ''aspirin zinc'') (1/4) 10
   = Inr [(''Aspirin'', ''aspirin'', ''Take one daily'', 1),
          (''Zinc Oxide'', ''zinc oxide'', ''Apply'', dbl 0.45)]
   \<and> entry_final_score (\<lambda>vs. vs) (text_words ''aspirin zinc'') ''Zinc Oxide''
       = Inr (dbl (1/2 * dbl 0.9))
   \<and> (1/4 :: real) \<le> dbl (1/2 * dbl 0.9)
   \<and> dbl 0.45 = round3 (dbl (1/2 * dbl 0.9))
   \<and> (1/4 :: real) \<le> dbl 0.45"
proof -
  have mem: "(''Zinc Oxide'', ''zinc oxide'', ''Apply'', dbl 0.45)
      \<in> set [(''Aspirin'', ''aspirin'', ''Take one daily'', 1),
              (''Zinc Oxide'', ''zinc oxide'', ''Apply'', dbl 0.45)]"
    by simp
  from results_score_cutoff [OF eval_two_entries mem] obtain t final where
    t: "Some ''aspirin zinc'' = Some t"
    and final: "entry_final_score (\<lambda>vs. vs) (text_words t) ''Zinc Oxide'' = Inr final"
    and le: "1/4 \<le> final" and score: "dbl 0.45 = round3 final"
    and rounded: "round3 (1/4) \<le> dbl 0.45"
    by blast
  from t have "t = ''aspirin zinc''" by simp
  with final eval_two_entries_final have "final = dbl (1/2 * dbl 0.9)" by simp
  with le score have "(1/4 :: real) \<le> dbl (1/2 * dbl 0.9)"
    and "dbl 0.45 = round3 (dbl (1/2 * dbl 0.9))"
    by simp_all
  moreover from rounded eval_two_entries_final have "(1/4 :: real) \<le> dbl 0.45" by simp
  ultimately show ?thesis
    using eval_two_entries eval_two_entries_final by blast
qed

text \<open>
  Claim C6 as stated fails: with the cutoff \<open>0.5714\<close> the entry \<open>Zinc Oxide\<close> has the
  final score \<open>8/14 = 0.571428...\<close> for the text \<open>zinc\<close>, which passes the cutoff, and the
  score returned is \<open>0.571\<close>, below the cutoff.
\<close>

theorem rounded_score_counterexample:
  "match_instructions (\<lambda>vs. vs) [(''Zinc Oxide'', ''Apply'')] (Some ''zinc'') (dbl 0.5714) 10
     = Inr [(''Zinc Oxide'', ''zinc oxide'', ''Apply'', dbl 0.571)]
   \<and> dbl 0.571 < dbl 0.5714"
  by code_simp

subsection \<open>Final scores\<close>





subsection \<open>The order of the results\<close>

text \<open>
  Claim C7. In the list returned, a result that comes before another has a score at
  least as high, and two results with equal scores are in ascending order of their
  names (the order of strings is the lexicographic order on code points, as in
  Python).
\<close>

theorem results_sorted:
  assumes "match_instructions order db text cutoff max_results = Inr res"
    and "i < j" and "j < length res"
    and "res ! i = (drug_i, variant_i, snip_i, score_i)"
    and "res ! j = (drug_j, variant_j, snip_j, score_j)"
  shows "score_j \<le> score_i \<and> (score_i = score_j \<longrightarrow> drug_i \<le> drug_j)"
proof -
  have "sorted (map sort_key_of res)"
  proof (cases "res = []")
    case True
    then show ?thesis by simp
  next
    case False
    then obtain r where "r \<in> set res" by (cases res) auto
    with assms(1) obtain results where
      "res = slice_to (sort_key sort_key_of results) max_results"
      by (rule match_instructions_InrD)
    then show ?thesis by (simp add: sorted_slice_to)
  qed
  with assms(2,3) have "sort_key_of (res ! i) \<le> sort_key_of (res ! j)"
    by (simp add: sorted_iff_nth_mono)
  then show ?thesis
    by (auto simp: assms(4,5) sort_key_of_def less_eq_prod_def)
qed

text \<open>
  Two names that both occur in the text score \<open>1\<close> and come out in the order of their
  names, whatever their order in the catalog.
\<close>

lemma eval_equal_scores:
  "match_instructions (\<lambda>vs. vs) [(''Zinc'', ''Apply''), (''Aspirin'', ''Take one daily'')]
     (Some ''zinc aspirin'') (1/4) 10
   = Inr [(''Aspirin'', ''aspirin'', ''Take one daily'', 1), (''Zinc'', ''zinc'', ''Apply'', 1)]"
  by code_simp

theorem results_sorted_witness:
  "match_instructions (\<lambda>vs. vs) [(''Zinc'', ''Apply''), (''Aspirin'', ''Take one daily'')]
     (Some ''zinc aspirin'') (1/4) 10
   = Inr [(''Aspirin'', ''aspirin'', ''Take one daily'', 1), (''Zinc'', ''zinc'', ''Apply'', 1)]
   \<and> (0::nat) < 1
   \<and> 1 < length [(''Aspirin'', ''aspirin'', ''Take one daily'', 1 :: real),
                  (''Zinc'', ''zinc'', ''Apply'', 1)]
   \<and> (1 :: real) \<le> 1
   \<and> ''Aspirin'' \<le> ''Zinc''"
proof -
  let ?res = "[(''Aspirin'', ''aspirin'', ''Take one daily'', 1 :: real),
               (''Zinc'', ''zinc'', ''Apply'', 1)]"
  have i: "(0::nat) < 1" and j: "1 < length ?res" by simp_all
  have ri: "?res ! 0 = (''Aspirin'', ''aspirin'', ''Take one daily'', 1)"
    and rj: "?res ! 1 = (''Zinc'', ''zinc'', ''Apply'', 1)"
    by simp_all
  from results_sorted [OF eval_equal_scores i j ri rj]
  have "(1 :: real) \<le> 1" and "''Aspirin'' \<le> ''Zinc''" by blast+
  with eval_equal_scores i j show ?thesis by blast
qed

subsection \<open>A text of white space\<close>

lemma lower_char_space: "isspace c \<Longrightarrow> lower_char c = c"
  by (auto simp: isspace_def lower_char_def Let_def)

lemma split_acc_spaces: "\<forall>c\<in>set s. isspace c \<Longrightarrow> split_acc [] s = []"
  by (induction s) simp_all

lemma text_words_spaces:
  assumes "\<forall>c\<in>set t. isspace c"
  shows "text_words t = []"
proof -
  from assms have "lower t = t"
    by (simp add: lower_def lower_char_space map_idI)
  with assms show ?thesis
    by (simp add: text_words_def split_def split_acc_spaces)
qed

lemma match_loop_no_words: "match_loop order [] cutoff db = Inr []"
  by (induction db) (auto simp: match_entry_def matched_tokens_def)

text \<open>
  Claim C10. For a non-empty text made of white space only, the matcher returns the
  empty list, for every catalog, cutoff, \<open>max_results\<close> and enumeration order: the
  guard for the empty text does not apply, the text has no words, and so no entry
  passes the gate.
\<close>

theorem match_instructions_whitespace_text:
  assumes "t \<noteq> []" and "\<forall>c\<in>set t. isspace c"
  shows "text_words t = []
         \<and> match_instructions order db (Some t) cutoff max_results = Inr []"
  using assms
  by (simp add: match_instructions_def text_words_spaces match_loop_no_words slice_to_def)

text \<open>
  The theorem at the text made of a space and a tab.
\<close>

theorem match_instructions_whitespace_text_witness:
  "[CHR '' '', CHR 0x09] \<noteq> [] \<and> isspace CHR '' '' \<and> isspace (CHR 0x09)
   \<and> text_words [CHR '' '', CHR 0x09] = []
   \<and> match_instructions (\<lambda>vs. vs) [(''Aspirin'', ''Take one daily'')] (Some [CHR '' '', CHR 0x09])
        (1/4) 10 = Inr []"
proof -
  have ne: "[CHR '' '', CHR 0x09] \<noteq> []" by simp
  have sp: "isspace CHR '' ''" "isspace (CHR 0x09)" by (simp_all add: isspace_def)
  then have ws: "\<forall>c\<in>set [CHR '' '', CHR 0x09]. isspace c" by simp
  from match_instructions_whitespace_text [OF ne ws] ne sp show ?thesis by blast
qed

subsection \<open>A name that occurs in the text\<close>










subsection \<open>A name that is a single form word\<close>

lemma text_words_ointment_cream: "text_words ''ointment cream'' = [''ointment'', ''cream'']"
  by code_simp

lemma strip_cream: "strip ''Cream'' = ''Cream''"
  by code_simp

lemma drug_core_tokens_cream: "drug_core_tokens ''Cream'' = {''cream''}"
  by code_simp

lemma expand_variants_cream: "expand_variants ''Cream'' = Inr [''cream'']"
  by code_simp

lemma bare_form_cream: "bare_form (lower (strip ''cream''))"
  by code_simp

text \<open>
  Claim C5. With the text \<open>ointment cream\<close> and a catalog whose only entry is named
  \<open>Cream\<close>, the matcher returns no result, for the cutoff \<open>0.25\<close> as for every other
  cutoff, and for every payload and \<open>max_results\<close>: the entry passes the gate, but its
  only variant \<open>cream\<close> is a single word of \<open>FORMS\<close> and is skipped, so that
  \<open>any_candidate\<close> stays false. The enumeration order is assumed to list exactly the
  variants of the set. The last three conjuncts state the mechanism: the token \<open>cream\<close>
  is matched, the only variant is \<open>cream\<close>, and that variant is a bare form.
\<close>

theorem bare_form_name_no_result:
  assumes "\<forall>vs. set (order vs) = set vs"
  shows "match_instructions order [(''Cream'', payload)] (Some ''ointment cream'') cutoff max_results
           = Inr []
         \<and> matched_tokens ''Cream'' (text_words ''ointment cream'') = {''cream''}
         \<and> expand_variants ''Cream'' = Inr [''cream'']
         \<and> bare_form (lower (strip ''cream''))"
proof -
  have "lower (strip v) = [] \<or> bare_form (lower (strip v))" if "v \<in> set (order [''cream''])" for v
  proof -
    from that assms have v: "v = ''cream''" by simp
    show ?thesis unfolding v by (rule disjI2) (rule bare_form_cream)
  qed
  then have "\<forall>v\<in>set (order [''cream'']). lower (strip v) = [] \<or> bare_form (lower (strip v))"
    by blast
  then have "scan_variants [''ointment'', ''cream''] k (order [''cream'']) (0, None, False)
      = (0, None, False)" for k
    by (rule scan_variants_all_skipped)
  then have "match_instructions order [(''Cream'', payload)] (Some ''ointment cream'') cutoff
      max_results = Inr []"
    by (simp add: match_instructions_def text_words_ointment_cream match_entry_def strip_cream
        matched_tokens_def drug_core_tokens_cream expand_variants_cream slice_to_def)
  moreover have "matched_tokens ''Cream'' (text_words ''ointment cream'') = {''cream''}"
    by (simp add: matched_tokens_def text_words_ointment_cream drug_core_tokens_cream)
  ultimately show ?thesis
    using expand_variants_cream bare_form_cream by blast
qed

text \<open>
  The theorem when the variants are enumerated in insertion order.
\<close>

theorem bare_form_name_no_result_witness:
  "(\<forall>vs. set ((\<lambda>vs. vs) vs) = set (vs :: string list))
   \<and> match_instructions (\<lambda>vs. vs) [(''Cream'', ''Apply thinly'')] (Some ''ointment cream'') (1/4) 10
       = Inr []"
proof -
  have order: "\<forall>vs. set ((\<lambda>vs. vs) vs) = set (vs :: string list)" by simp
  from bare_form_name_no_result [OF order, of "''Apply thinly''" "1/4" 10] order
  show ?thesis by blast
qed

end
